theory Spec2Isabelle
  imports Main "HOL-Library.Multiset" "HOL-Library.List_Lexorder" "HOL-Library.Char_ord"
begin

section \<open>JavaScript strings\<close>

text \<open>
  Strings are modelled as \<open>string\<close>, lists of 8-bit characters read as code units. The
  whitespace known to \<open>String.prototype.trim\<close> and to the class \<open>\s\<close> of regular
  expressions is, in this range: tab, line feed, vertical tab, form feed, carriage return,
  space and no-break space.
\<close>

definition isWhitespace :: "char \<Rightarrow> bool" where
  "isWhitespace c = (c \<in> set [CHR 0x09, CHR 0x0A, CHR 0x0B, CHR 0x0C, CHR 0x0D, CHR 0x20, CHR 0xA0])"

text \<open>\<open>s.trim()\<close>\<close>

definition trim :: "string \<Rightarrow> string" where
  "trim s = rev (dropWhile isWhitespace (rev (dropWhile isWhitespace s)))"

text \<open>\<open>s.split(c)\<close> for a one-character separator: the empty string gives one empty piece.\<close>

fun splitOn :: "char \<Rightarrow> string \<Rightarrow> string list" where
  "splitOn c [] = [[]]"
| "splitOn c (x # xs) =
     (if x = c then [] # splitOn c xs
      else (case splitOn c xs of [] \<Rightarrow> [[x]] | w # ws \<Rightarrow> (x # w) # ws))"

text \<open>
  \<open>s.split(/\s+/)\<close>: the pieces between maximal runs of whitespace. A leading or a trailing
  run leaves an empty first or last piece, as in JavaScript.
\<close>

function splitWs :: "string \<Rightarrow> string list" where
  "splitWs [] = [[]]"
| "splitWs (c # cs) =
     (if isWhitespace c then [] # splitWs (dropWhile isWhitespace cs)
      else (case splitWs cs of [] \<Rightarrow> [[c]] | w # ws \<Rightarrow> (c # w) # ws))"
  by pat_completeness auto
termination
  by (relation "measure length") (auto simp: le_imp_less_Suc length_dropWhile_le)

text \<open>\<open>parts.join(sep)\<close>\<close>

fun joinWith :: "string \<Rightarrow> string list \<Rightarrow> string" where
  "joinWith sep [] = []"
| "joinWith sep [x] = x"
| "joinWith sep (x # y # ys) = x @ sep @ joinWith sep (y # ys)"

section \<open>Errors\<close>

text \<open>
  A rejected promise or a thrown exception is the \<open>Inl\<close> of a sum; the collaborators
  (simple-git, the file system) are parameters that return such sums.
\<close>

datatype error = GitError | FsError

section \<open>Commit History Reader (src/utils/git.ts)\<close>

text \<open>One entry of \<open>log.all\<close>, as simple-git returns it.\<close>

record LogEntry =
  entry_hash :: string
  entry_message :: string
  author_name :: string
  entry_date :: string

record CommitInfo =
  hash :: string
  message :: string
  author :: string
  date :: string

text \<open>
  \<open>const options = limit ? { maxCount: limit } : {}\<close>. The optional parameter is
  \<open>None\<close> when omitted; a number is falsy when it is zero. The options object is modelled
  by its only possible key: \<open>Some n\<close> is \<open>{ maxCount: n }\<close>, \<open>None\<close> is \<open>{}\<close>.
\<close>

definition logOptions :: "int option \<Rightarrow> int option" where
  "logOptions limit = (case limit of None \<Rightarrow> None | Some n \<Rightarrow> if n \<noteq> 0 then Some n else None)"

text \<open>\<open>gitLog\<close> is \<open>git.log(options)\<close>, the log provider.\<close>

definition getCommitHistory :: "(int option \<Rightarrow> error + LogEntry list) \<Rightarrow> int option \<Rightarrow> CommitInfo list" where
  "getCommitHistory gitLog limit =
     (case gitLog (logOptions limit) of
        Inl e \<Rightarrow> []
      | Inr all \<Rightarrow>
          map (\<lambda>commit. \<lparr>hash = take 7 (entry_hash commit), message = entry_message commit,
                          author = author_name commit, date = entry_date commit\<rparr>) all)"

record ChangedFile =
  filePath :: string
  statusCode :: string

text \<open>The body of the \<open>for (const line of lines)\<close> loop of \<open>getFilesInCommit\<close>.\<close>

definition parseNameStatusLine :: "string \<Rightarrow> ChangedFile option" where
  "parseNameStatusLine line =
     (let trimmedLine = trim line in
      if trimmedLine = [] then None
      else (case splitWs trimmedLine of
              code # p # ps \<Rightarrow>
                (let path' = joinWith '' '' (p # ps) in
                 if code \<noteq> [] \<and> path' \<noteq> [] then Some \<lparr>filePath = path', statusCode = code\<rparr>
                 else None)
            | _ \<Rightarrow> None))"

text \<open>\<open>gitShow\<close> is \<open>git.show(['--name-status', '--format=', commitHash])\<close>.\<close>

definition getFilesInCommit :: "(string \<Rightarrow> error + string) \<Rightarrow> string \<Rightarrow> ChangedFile list" where
  "getFilesInCommit gitShow commitHash =
     (case gitShow commitHash of
        Inl e \<Rightarrow> []
      | Inr result \<Rightarrow>
          List.map_filter parseNameStatusLine
            (filter (\<lambda>line. trim line \<noteq> []) (splitOn (CHR 0x0A) result)))"

section \<open>Data model of the change list (src/utils/git.ts)\<close>

datatype statusKind = Modified | New | Deleted | Renamed | Unknown | Unstaged | Unchanged | Ignored

text \<open>\<open>FileStatus\<close>; a \<open>Date\<close> is its time value in milliseconds, so \<open>new Date(0)\<close> is 0.\<close>

record FileStatus =
  path :: string
  status :: statusKind
  mtime :: int

text \<open>
  The result of \<open>git.status()\<close>. \<open>files = None\<close> stands for a report whose \<open>files\<close>
  is missing or not an array; a missing flat list or rename list is read as the empty list,
  as \<open>status.modified || []\<close> and \<open>status.renamed && ...\<close> do, and a missing flag
  as the empty string, since \<open>file.index || ' '\<close> treats both alike.
\<close>

record StatusFile =
  file_path :: string
  index :: string
  working_dir :: string

record RenamePair =
  rename_from :: string
  rename_to :: string

record StatusResult =
  files :: "StatusFile list option"
  modified :: "string list"
  staged :: "string list"
  not_added :: "string list"
  deleted :: "string list"
  renamed :: "RenamePair list"

section \<open>Status Normalizer\<close>

text \<open>The two locals \<open>uniquePaths\<close> and \<open>fileList\<close> that \<open>addFileIfUnique\<close> updates.\<close>

record collected =
  uniquePaths :: "string set"
  fileList :: "FileStatus list"

definition emptyCollected :: collected where
  "emptyCollected = \<lparr>uniquePaths = {}, fileList = []\<rparr>"

definition addFileIfUnique :: "string \<Rightarrow> statusKind \<Rightarrow> collected \<Rightarrow> collected" where
  "addFileIfUnique p fileStatus acc =
     (if p \<notin> uniquePaths acc
      then acc\<lparr>uniquePaths := insert p (uniquePaths acc),
               fileList := fileList acc @ [\<lparr>path = p, status = fileStatus, mtime = 0\<rparr>]\<rparr>
      else acc)"

text \<open>\<open>flag || ' '\<close>: the empty string is falsy.\<close>

definition orBlank :: "string \<Rightarrow> string" where
  "orBlank flag = (if flag = [] then '' '' else flag)"

text \<open>The callback of \<open>status.files.forEach\<close>; every branch of the source ends in \<open>return\<close>.\<close>

definition processFile :: "RenamePair list \<Rightarrow> StatusFile \<Rightarrow> collected \<Rightarrow> collected" where
  "processFile renamedList file acc =
     (let indexStatus = orBlank (index file);
          workingDirStatus = orBlank (working_dir file);
          p = file_path file
      in if list_ex (\<lambda>r. rename_to r = p \<or> rename_from r = p) renamedList
           then addFileIfUnique p Renamed acc
         else if CHR ''D'' \<in> set indexStatus \<or> CHR ''D'' \<in> set workingDirStatus
           then addFileIfUnique p Deleted acc
         else if indexStatus = ''?'' \<and> workingDirStatus = ''?''
           then addFileIfUnique p New acc
         else if CHR ''A'' \<in> set indexStatus \<and> indexStatus \<noteq> ''?''
           then addFileIfUnique p Modified acc
         else if (indexStatus = '' '' \<or> indexStatus = ''M'')
                 \<and> (workingDirStatus = ''M'' \<or> CHR ''M'' \<in> set workingDirStatus)
           then addFileIfUnique p Unstaged acc
         else acc)"

text \<open>Both branches of \<open>if (status.files && Array.isArray(status.files))\<close>.\<close>

definition collectFiles :: "StatusResult \<Rightarrow> collected" where
  "collectFiles st =
     (case files st of
        Some fs \<Rightarrow> foldl (\<lambda>acc file. processFile (renamed st) file acc) emptyCollected fs
      | None \<Rightarrow>
          (let a1 = foldl (\<lambda>acc file. addFileIfUnique file Unstaged acc) emptyCollected (modified st);
               a2 = foldl (\<lambda>acc file. addFileIfUnique file Modified acc) a1 (staged st);
               a3 = foldl (\<lambda>acc file. addFileIfUnique file New acc) a2 (not_added st);
               a4 = foldl (\<lambda>acc file. addFileIfUnique file Deleted acc) a3 (deleted st)
           in foldl (\<lambda>acc rename. addFileIfUnique (rename_to rename) Renamed acc) a4 (renamed st)))"

text \<open>
  What one raw entry contributes when nothing has been collected yet: the path and status of
  the record it produces, or nothing.
\<close>

definition entrySignal :: "RenamePair list \<Rightarrow> StatusFile \<Rightarrow> (string \<times> statusKind) option" where
  "entrySignal renamedList file =
     (case fileList (processFile renamedList file emptyCollected) of
        [] \<Rightarrow> None
      | r # rs \<Rightarrow> Some (path r, status r))"

text \<open>
  The raw entries that resolve, in the order in which the source visits them, each with the
  status it resolves to.
\<close>

definition rawSignals :: "StatusResult \<Rightarrow> (string \<times> statusKind) list" where
  "rawSignals st =
     (case files st of
        Some fs \<Rightarrow> List.map_filter (entrySignal (renamed st)) fs
      | None \<Rightarrow>
          map (\<lambda>p. (p, Unstaged)) (modified st) @ map (\<lambda>p. (p, Modified)) (staged st)
          @ map (\<lambda>p. (p, New)) (not_added st) @ map (\<lambda>p. (p, Deleted)) (deleted st)
          @ map (\<lambda>r. (rename_to r, Renamed)) (renamed st))"

text \<open>
  The resolution order in the words of the specification (section 4.1): a table of rules
  over the two raw flags, of which the first that matches decides. A flag is empty when it is
  the empty string or the blank that the status report prints for an unset slot.
\<close>

definition isEmptyFlag :: "string \<Rightarrow> bool" where
  "isEmptyFlag flag = (flag = [] \<or> flag = '' '')"

definition specRules :: "RenamePair list \<Rightarrow> ((StatusFile \<Rightarrow> bool) \<times> statusKind) list" where
  "specRules renamedList =
     [(\<lambda>e. file_path e \<in> set (map rename_to renamedList) \<union> set (map rename_from renamedList), Renamed),
      (\<lambda>e. CHR ''D'' \<in> set (index e) \<or> CHR ''D'' \<in> set (working_dir e), Deleted),
      (\<lambda>e. index e = ''?'' \<and> working_dir e = ''?'', New),
      (\<lambda>e. CHR ''A'' \<in> set (index e) \<and> index e \<noteq> ''?'', Modified),
      (\<lambda>e. (isEmptyFlag (index e) \<or> index e = ''M'')
            \<and> (working_dir e = ''M'' \<or> CHR ''M'' \<in> set (working_dir e)), Unstaged)]"

definition firstMatchingRule :: "RenamePair list \<Rightarrow> StatusFile \<Rightarrow> statusKind option" where
  "firstMatchingRule renamedList e = map_option snd (find (\<lambda>rule. fst rule e) (specRules renamedList))"

section \<open>Metadata Enricher, Snapshot Sorter and getChangedFiles\<close>

text \<open>
  The collaborators of \<open>getChangedFiles\<close>: the \<open>simpleGit(cwd)\<close> constructor, which can
  throw, \<open>git.status()\<close>, \<open>git.revparse(['--show-toplevel'])\<close>, the injected \<open>path\<close> and
  \<open>fsPromises\<close> objects, the built-in \<open>String.prototype.localeCompare\<close>, and
  \<open>git.raw(args)\<close>, which \<open>searchFiles\<close> uses.
\<close>

record collaborators =
  simpleGit :: "string \<Rightarrow> error + unit"
  gitStatus :: "error + StatusResult"
  revparseTopLevel :: "error + string"
  isAbsolute :: "string \<Rightarrow> bool"
  pathJoin :: "string \<Rightarrow> string \<Rightarrow> string"
  fsStat :: "string \<Rightarrow> error + int"
  localeCompare :: "string \<Rightarrow> string \<Rightarrow> int"
  gitRaw :: "string list \<Rightarrow> error + string"

definition getRepoRoot :: "collaborators \<Rightarrow> string \<Rightarrow> string" where
  "getRepoRoot C cwd =
     (case simpleGit C cwd of
        Inl e \<Rightarrow> cwd
      | Inr git \<Rightarrow> (case revparseTopLevel C of Inl e \<Rightarrow> cwd | Inr root \<Rightarrow> trim root))"

text \<open>
  The async callback given to \<open>fileList.map\<close>, with its local \<open>absPath\<close>: its whole body
  is a \<open>try\<close> whose \<open>catch\<close> stores the epoch, so the promise it returns is never
  rejected.
\<close>

definition absPath :: "collaborators \<Rightarrow> string \<Rightarrow> FileStatus \<Rightarrow> string" where
  "absPath C root f = (if isAbsolute C (path f) then path f else pathJoin C root (path f))"

definition addMtime :: "collaborators \<Rightarrow> string \<Rightarrow> FileStatus \<Rightarrow> error + FileStatus" where
  "addMtime C root f =
     (case fsStat C (absPath C root f) of
        Inr t \<Rightarrow> Inr (f\<lparr>mtime := t\<rparr>)
      | Inl e \<Rightarrow> Inr (f\<lparr>mtime := 0\<rparr>))"

text \<open>\<open>Promise.all\<close>: rejected as soon as one of the promises is.\<close>

fun promiseAll :: "(error + 'a) list \<Rightarrow> error + 'a list" where
  "promiseAll [] = Inr []"
| "promiseAll (r # rs) =
     (case r of
        Inl e \<Rightarrow> Inl e
      | Inr v \<Rightarrow> (case promiseAll rs of Inl e \<Rightarrow> Inl e | Inr vs \<Rightarrow> Inr (v # vs)))"

text \<open>The comparison function given to \<open>fileList.sort\<close>.\<close>

definition compareFiles :: "(string \<Rightarrow> string \<Rightarrow> int) \<Rightarrow> FileStatus \<Rightarrow> FileStatus \<Rightarrow> int" where
  "compareFiles lc a b =
     (let timeDiff = mtime b - mtime a
      in if timeDiff \<noteq> 0 then timeDiff else lc (path a) (path b))"

text \<open>
  \<open>Array.prototype.sort\<close> is a built-in. ECMAScript requires it to be stable, and for a
  consistent comparison function every stable sort returns the same array; it is modelled
  by a stable insertion sort, in which \<open>cmp x y \<le> 0\<close> keeps \<open>x\<close>, the earlier element,
  in front.
\<close>

fun insertSorted :: "('a \<Rightarrow> 'a \<Rightarrow> int) \<Rightarrow> 'a \<Rightarrow> 'a list \<Rightarrow> 'a list" where
  "insertSorted cmp x [] = [x]"
| "insertSorted cmp x (y # ys) = (if cmp x y \<le> 0 then x # y # ys else y # insertSorted cmp x ys)"

definition arraySort :: "('a \<Rightarrow> 'a \<Rightarrow> int) \<Rightarrow> 'a list \<Rightarrow> 'a list" where
  "arraySort cmp xs = foldr (insertSorted cmp) xs []"

text \<open>The body of the \<open>try\<close> block of \<open>getChangedFiles\<close>.\<close>

definition getChangedFilesTry :: "collaborators \<Rightarrow> string \<Rightarrow> error + FileStatus list" where
  "getChangedFilesTry C cwd =
     (case simpleGit C cwd of
        Inl e \<Rightarrow> Inl e
      | Inr git \<Rightarrow>
          (case gitStatus C of
             Inl e \<Rightarrow> Inl e
           | Inr st \<Rightarrow>
               (let root = getRepoRoot C cwd;
                    collectedFiles = fileList (collectFiles st)
                in case promiseAll (map (addMtime C root) collectedFiles) of
                     Inl e \<Rightarrow> Inl e
                   | Inr enriched \<Rightarrow> Inr (arraySort (compareFiles (localeCompare C)) enriched))))"

text \<open>
  \<open>getChangedFiles\<close>: \<open>Inr\<close> is the value its promise resolves to, \<open>Inl\<close> would be a
  rejection reaching the caller.
\<close>

definition getChangedFiles :: "collaborators \<Rightarrow> string \<Rightarrow> error + FileStatus list" where
  "getChangedFiles C cwd =
     (case getChangedFilesTry C cwd of Inl e \<Rightarrow> Inr [] | Inr snapshot \<Rightarrow> Inr snapshot)"

section \<open>Content Search Filter\<close>





section \<open>The App component (index.tsx)\<close>



text \<open>
  The state cells of the component that \<open>refresh\<close> writes with \<open>setAllFiles\<close> and
  \<open>setSelectedIndex\<close>, and \<open>searchActive\<close>.
\<close>

record appState =
  allFiles :: "FileStatus list"
  selectedIndex :: int
  searchActive :: bool

text \<open>
  \<open>const [selectedIndex, setSelectedIndex] = useState(0)\<close> and
  \<open>const [searchActive, setSearchActive] = useState(false)\<close> bind constants in every
  render of the component; a \<open>refresh\<close> closure reads the constants of the render that
  created it. This record holds those two constants.
\<close>

record render =
  renderSelectedIndex :: int
  renderSearchActive :: bool

text \<open>
  \<open>refresh\<close> in its two parts, before and after \<open>await getChangedFiles(repoPath)\<close>.
  \<open>refreshStarts\<close> is the guard in front of the call: whether a pass is started.
  \<open>refreshPublish\<close> is what runs once the call has yielded \<open>newFiles\<close>: the comparison
  reads the closure's constant, the two setters write the state. \<open>refresh\<close> is the whole
  function for a call that yields \<open>newFiles\<close>.
\<close>

definition refreshStarts :: "render \<Rightarrow> bool \<Rightarrow> bool" where
  "refreshStarts r skipIfSearching = (\<not> (skipIfSearching \<and> renderSearchActive r))"

definition refreshPublish :: "render \<Rightarrow> FileStatus list \<Rightarrow> appState \<Rightarrow> appState" where
  "refreshPublish r newFiles s =
     (let s1 = s\<lparr>allFiles := newFiles\<rparr>
      in if renderSelectedIndex r \<ge> int (length newFiles)
         then s1\<lparr>selectedIndex := max 0 (int (length newFiles) - 1)\<rparr>
         else s1)"

definition refresh :: "render \<Rightarrow> bool \<Rightarrow> FileStatus list \<Rightarrow> appState \<Rightarrow> appState" where
  "refresh r skipIfSearching newFiles s =
     (if refreshStarts r skipIfSearching then refreshPublish r newFiles s else s)"

section \<open>Polling Scheduler\<close>

text \<open>
  The events of the component that matter to polling:
  \<^item> \<open>Tick\<close>: the timer set by \<open>setInterval(async () => { await refresh(true); }, POLLING_INTERVAL)\<close>
    fires and the callback runs up to its \<open>await\<close>; \<open>setInterval\<close> does not wait for the
    promise of an earlier callback;
  \<^item> \<open>Settle newFiles\<close>: the oldest pending \<open>await getChangedFiles(repoPath)\<close> yields
    \<open>newFiles\<close> and the rest of that \<open>refresh\<close> runs;
  \<^item> \<open>Select i\<close>: \<open>onSelect\<close> calls \<open>setSelectedIndex(i)\<close>;
  \<^item> \<open>SearchChanged b\<close>: the search box is submitted or dismissed:
    \<open>setSearchActive(b); setSelectedIndex(0)\<close>, two updates of one handler that lead to
    one render.
  The polling effect has the dependencies \<open>[repoPath, searchActive]\<close>: it installs a new
  interval callback, created in the current render, only when \<open>searchActive\<close> changes.
\<close>

datatype event = Tick | Settle "FileStatus list" | Select int | SearchChanged bool

record app =
  state :: appState
  pollRender :: render
  pending :: "render list"

fun step :: "event \<Rightarrow> app \<Rightarrow> app" where
  "step Tick a =
     (if refreshStarts (pollRender a) True then a\<lparr>pending := pending a @ [pollRender a]\<rparr>
      else a)"
| "step (Settle newFiles) a =
     (case pending a of
        [] \<Rightarrow> a
      | r # rs \<Rightarrow> a\<lparr>state := refreshPublish r newFiles (state a), pending := rs\<rparr>)"
| "step (Select i) a = a\<lparr>state := (state a)\<lparr>selectedIndex := i\<rparr>\<rparr>"
| "step (SearchChanged b) a =
     (let s = (state a)\<lparr>searchActive := b, selectedIndex := 0\<rparr>
      in if b = searchActive (state a) then a\<lparr>state := s\<rparr>
         else a\<lparr>state := s, pollRender := \<lparr>renderSelectedIndex = 0, renderSearchActive = b\<rparr>\<rparr>)"

definition run :: "event list \<Rightarrow> app \<Rightarrow> app" where
  "run es a = foldl (\<lambda>a e. step e a) a es"

text \<open>The component after mounting and its first \<open>refresh()\<close> with the given files.\<close>

definition mounted :: "FileStatus list \<Rightarrow> app" where
  "mounted fs =
     \<lparr>state = refresh \<lparr>renderSelectedIndex = 0, renderSearchActive = False\<rparr> False fs
                \<lparr>allFiles = [], selectedIndex = 0, searchActive = False\<rparr>,
      pollRender = \<lparr>renderSelectedIndex = 0, renderSearchActive = False\<rparr>,
      pending = []\<rparr>"

text \<open>
  No two passes are ever pending together along a run, and: every tick of a run finds the
  previous pass resolved.
\<close>

fun neverOverlap :: "app \<Rightarrow> event list \<Rightarrow> bool" where
  "neverOverlap a [] = (length (pending a) \<le> 1)"
| "neverOverlap a (e # es) = (length (pending a) \<le> 1 \<and> neverOverlap (step e a) es)"

fun ticksFindNoPendingPass :: "app \<Rightarrow> event list \<Rightarrow> bool" where
  "ticksFindNoPendingPass a [] = True"
| "ticksFindNoPendingPass a (e # es) =
     ((e = Tick \<longrightarrow> pending a = []) \<and> ticksFindNoPendingPass (step e a) es)"

section \<open>Notions used in the statements\<close>

text \<open>The two locals of the normalizer agree and no path occurs twice.\<close>

definition collectedOk :: "collected \<Rightarrow> bool" where
  "collectedOk acc =
     (uniquePaths acc = set (map path (fileList acc)) \<and> distinct (map path (fileList acc)))"

definition pairsOf :: "FileStatus list \<Rightarrow> (string \<times> statusKind) list" where
  "pairsOf fs = map (\<lambda>f. (path f, status f)) fs"

text \<open>The record that the callback of the enricher leaves for \<open>f\<close>.\<close>

definition withMtime :: "collaborators \<Rightarrow> string \<Rightarrow> FileStatus \<Rightarrow> FileStatus" where
  "withMtime C root f =
     f\<lparr>mtime := (case fsStat C (absPath C root f) of Inl e \<Rightarrow> 0 | Inr t \<Rightarrow> t)\<rparr>"

text \<open>
  What ECMAScript asks of a comparison function for the result of \<open>sort\<close> to be defined,
  here for the string comparison: the sign is antisymmetric and \<open>\<le> 0\<close> is transitive.
\<close>

definition consistentComparison :: "(string \<Rightarrow> string \<Rightarrow> int) \<Rightarrow> bool" where
  "consistentComparison lc =
     ((\<forall>a b. lc a b < 0 \<longleftrightarrow> 0 < lc b a)
      \<and> (\<forall>a b c. lc a b \<le> 0 \<and> lc b c \<le> 0 \<longrightarrow> lc a c \<le> 0))"

text \<open>The order of a snapshot: later modification first, equal times by path.\<close>

definition snapshotOrder :: "(string \<Rightarrow> string \<Rightarrow> int) \<Rightarrow> FileStatus \<Rightarrow> FileStatus \<Rightarrow> bool" where
  "snapshotOrder lc a b =
     (mtime b \<le> mtime a \<and> (mtime a = mtime b \<longrightarrow> lc (path a) (path b) \<le> 0))"

text \<open>
  Lexicographic comparison of strings by character code, a comparison function with which
  the string comparison parameter can be instantiated.
\<close>

definition codeUnitCompare :: "string \<Rightarrow> string \<Rightarrow> int" where
  "codeUnitCompare a b = (if a < b then - 1 else if a = b then 0 else 1)"

text \<open>
  \<open>localeCompare\<close> is implemented by the collation of the runtime, not by the repository.
  A collation ignores control characters such as U+0001 altogether and compares letters
  without regard to case first: it takes \<open>a.ts\<close> and the same name with a U+0001 in it for
  equal, and puts \<open>a.ts\<close> before \<open>B.ts\<close>, where comparison by character code puts
  \<open>B.ts\<close> first. The following comparison function is of this kind: it drops the
  ignorable characters, compares the lower-cased strings, and lets the lower-case spelling
  come first between strings that differ in case only.
\<close>

definition ignorableChars :: "char list" where
  "ignorableChars =
     [CHR 0x00, CHR 0x01, CHR 0x02, CHR 0x03, CHR 0x04, CHR 0x05, CHR 0x06, CHR 0x07, CHR 0x08,
      CHR 0x0E, CHR 0x0F, CHR 0x10, CHR 0x11, CHR 0x12, CHR 0x13, CHR 0x14, CHR 0x15, CHR 0x16,
      CHR 0x17, CHR 0x18, CHR 0x19, CHR 0x1A, CHR 0x1B, CHR 0x1C, CHR 0x1D, CHR 0x1E, CHR 0x1F,
      CHR 0x7F]"

definition collationKey :: "string \<Rightarrow> string" where
  "collationKey a = filter (\<lambda>c. c \<notin> set ignorableChars) a"

definition toLowerCase :: "char \<Rightarrow> char" where
  "toLowerCase c =
     (case map_of (zip ''ABCDEFGHIJKLMNOPQRSTUVWXYZ'' ''abcdefghijklmnopqrstuvwxyz'') c of
        Some l \<Rightarrow> l
      | None \<Rightarrow> c)"

definition collationCompare :: "string \<Rightarrow> string \<Rightarrow> int" where
  "collationCompare a b =
     (if map toLowerCase (collationKey a) < map toLowerCase (collationKey b) then - 1
      else if map toLowerCase (collationKey b) < map toLowerCase (collationKey a) then 1
      else codeUnitCompare (collationKey b) (collationKey a))"

text \<open>No two different records of the list compare equal under the comparison of the sort.\<close>

definition noTies :: "(string \<Rightarrow> string \<Rightarrow> int) \<Rightarrow> FileStatus list \<Rightarrow> bool" where
  "noTies lc xs = (\<forall>a\<in>set xs. \<forall>b\<in>set xs. compareFiles lc a b = 0 \<longrightarrow> a = b)"

section \<open>Auxiliary lemmas\<close>

lemma orBlank_mem: "c \<noteq> CHR '' '' \<Longrightarrow> c \<in> set (orBlank s) \<longleftrightarrow> c \<in> set s"
  by (simp add: orBlank_def)

lemma orBlank_eq_single: "c \<noteq> CHR '' '' \<Longrightarrow> orBlank s = [c] \<longleftrightarrow> s = [c]"
  by (simp add: orBlank_def)

lemma orBlank_eq_blank: "orBlank s = '' '' \<longleftrightarrow> isEmptyFlag s"
  by (simp add: orBlank_def isEmptyFlag_def)

lemma list_ex_rename:
  "list_ex (\<lambda>r. rename_to r = p \<or> rename_from r = p) rn
   \<longleftrightarrow> p \<in> set (map rename_to rn) \<union> set (map rename_from rn)"
  by (auto simp: list_ex_iff)

lemma processFile_firstMatchingRule:
  "processFile rn e acc =
     (case firstMatchingRule rn e of None \<Rightarrow> acc | Some k \<Rightarrow> addFileIfUnique (file_path e) k acc)"
  unfolding processFile_def firstMatchingRule_def specRules_def Let_def list_ex_rename
  by (simp add: orBlank_mem orBlank_eq_single orBlank_eq_blank)

lemma addFileIfUnique_empty:
  "fileList (addFileIfUnique p k emptyCollected) = [\<lparr>path = p, status = k, mtime = 0\<rparr>]"
  by (simp add: addFileIfUnique_def emptyCollected_def)

lemma processFile_entrySignal:
  "processFile rn e acc =
     (case entrySignal rn e of None \<Rightarrow> acc | Some (p, k) \<Rightarrow> addFileIfUnique p k acc)"
  unfolding entrySignal_def processFile_def Let_def
  by (simp add: addFileIfUnique_empty) (simp add: emptyCollected_def)

lemma addFileIfUnique_ok: "collectedOk acc \<Longrightarrow> collectedOk (addFileIfUnique p k acc)"
  by (auto simp: collectedOk_def addFileIfUnique_def)

lemma addFileIfUnique_map_of:
  assumes "collectedOk acc"
  shows "map_of (pairsOf (fileList (addFileIfUnique p k acc))) = map_of (pairsOf (fileList acc) @ [(p, k)])"
proof (cases "p \<in> uniquePaths acc")
  case True
  then have "p \<in> fst ` set (pairsOf (fileList acc))"
    using assms by (force simp: collectedOk_def pairsOf_def)
  then have "p \<in> dom (map_of (pairsOf (fileList acc)))"
    by (simp add: dom_map_of_conv_image_fst)
  then have "map_of (pairsOf (fileList acc) @ [(p, k)]) = map_of (pairsOf (fileList acc))"
    by (auto simp: map_add_def fun_eq_iff split: option.splits)
  with True show ?thesis by (simp add: addFileIfUnique_def)
next
  case False
  then show ?thesis by (simp add: addFileIfUnique_def pairsOf_def)
qed

lemma foldl_addFileIfUnique:
  "collectedOk acc \<Longrightarrow>
   collectedOk (foldl (\<lambda>a s. addFileIfUnique (fst s) (snd s) a) acc sigs)
   \<and> map_of (pairsOf (fileList (foldl (\<lambda>a s. addFileIfUnique (fst s) (snd s) a) acc sigs)))
     = map_of (pairsOf (fileList acc) @ sigs)"
proof (induction sigs arbitrary: acc)
  case Nil
  then show ?case by simp
next
  case (Cons s sigs)
  have ok: "collectedOk (addFileIfUnique (fst s) (snd s) acc)"
    using Cons.prems by (rule addFileIfUnique_ok)
  have "map_of (pairsOf (fileList (addFileIfUnique (fst s) (snd s) acc)) @ sigs)
        = map_of (pairsOf (fileList acc) @ s # sigs)"
    using addFileIfUnique_map_of [OF Cons.prems, of "fst s" "snd s"] by simp
  with Cons.IH [OF ok] show ?case by simp
qed

lemma foldl_processFile:
  "foldl (\<lambda>acc file. processFile rn file acc) acc fs
   = foldl (\<lambda>a s. addFileIfUnique (fst s) (snd s) a) acc (List.map_filter (entrySignal rn) fs)"
  by (induction fs arbitrary: acc)
     (auto simp: processFile_entrySignal split: option.splits)

lemma foldl_flat:
  "foldl (\<lambda>acc x. addFileIfUnique (f x) k acc) acc xs
   = foldl (\<lambda>a s. addFileIfUnique (fst s) (snd s) a) acc (map (\<lambda>x. (f x, k)) xs)"
  by (induction xs arbitrary: acc) simp_all

lemma collectFiles_signals:
  "collectFiles st = foldl (\<lambda>a s. addFileIfUnique (fst s) (snd s) a) emptyCollected (rawSignals st)"
proof (cases "files st")
  case None
  then show ?thesis
    using foldl_flat [of "\<lambda>x. x"]
    by (simp add: collectFiles_def rawSignals_def Let_def foldl_flat [of rename_to])
next
  case (Some fs)
  then show ?thesis by (simp add: collectFiles_def rawSignals_def foldl_processFile)
qed

lemma collectedOk_empty: "collectedOk emptyCollected"
  by (simp add: collectedOk_def emptyCollected_def)

lemma collectFiles_ok:
  "distinct (map path (fileList (collectFiles st)))"
  "map_of (pairsOf (fileList (collectFiles st))) = map_of (rawSignals st)"
  using foldl_addFileIfUnique [OF collectedOk_empty, of "rawSignals st"]
  by (simp_all add: collectFiles_signals collectedOk_def pairsOf_def emptyCollected_def)

lemma addMtime_withMtime: "addMtime C root f = Inr (withMtime C root f)"
  by (simp add: addMtime_def withMtime_def split: sum.splits)

lemma promiseAll_Inr: "promiseAll (map Inr xs) = Inr xs"
  by (induction xs) simp_all

lemma promiseAll_addMtime:
  "promiseAll (map (addMtime C root) fs) = Inr (map (withMtime C root) fs)"
proof -
  have "map (addMtime C root) fs = map Inr (map (withMtime C root) fs)"
    by (simp add: addMtime_withMtime)
  then show ?thesis by (simp only: promiseAll_Inr)
qed

lemma mset_insertSorted: "mset (insertSorted cmp x ys) = add_mset x (mset ys)"
  by (induction ys) simp_all

lemma mset_arraySort: "mset (arraySort cmp xs) = mset xs"
  by (induction xs) (simp_all add: arraySort_def mset_insertSorted)

lemma getChangedFiles_cases:
  "getChangedFiles C cwd =
     (case simpleGit C cwd of Inl e \<Rightarrow> Inr []
      | Inr g \<Rightarrow> (case gitStatus C of Inl e \<Rightarrow> Inr []
          | Inr st \<Rightarrow> Inr (arraySort (compareFiles (localeCompare C))
                (map (withMtime C (getRepoRoot C cwd)) (fileList (collectFiles st))))))"
  by (simp add: getChangedFiles_def getChangedFilesTry_def Let_def promiseAll_addMtime
      split: sum.splits)

lemma path_withMtime: "path (withMtime C root f) = path f" "status (withMtime C root f) = status f"
  by (simp_all add: withMtime_def)

lemma distinct_paths_arraySort:
  "distinct (map path (arraySort cmp xs)) = distinct (map path xs)"
proof -
  have "mset (map path (arraySort cmp xs)) = mset (map path xs)"
    by (simp add: mset_arraySort)
  then show ?thesis by (rule mset_eq_imp_distinct_iff)
qed

lemma set_arraySort: "set (arraySort cmp xs) = set xs"
  using mset_arraySort [of cmp xs] by (rule mset_eq_setD)

lemma compareFiles_le: "compareFiles lc a b \<le> 0 \<longleftrightarrow> snapshotOrder lc a b"
  by (auto simp: compareFiles_def snapshotOrder_def Let_def)

lemma snapshotOrder_total:
  "consistentComparison lc \<Longrightarrow> snapshotOrder lc a b \<or> snapshotOrder lc b a"
  unfolding consistentComparison_def snapshotOrder_def
  by (metis linorder_not_less nle_le)

lemma snapshotOrder_trans:
  assumes "consistentComparison lc" "snapshotOrder lc a b" "snapshotOrder lc b c"
  shows "snapshotOrder lc a c"
proof -
  from assms(1) have tr: "\<And>x y z. lc x y \<le> 0 \<Longrightarrow> lc y z \<le> 0 \<Longrightarrow> lc x z \<le> 0"
    unfolding consistentComparison_def by blast
  show ?thesis
    using assms(2,3) tr [of "path a" "path b" "path c"]
    unfolding snapshotOrder_def by auto
qed

lemma set_insertSorted: "set (insertSorted cmp x ys) = insert x (set ys)"
  by (induction ys) auto

lemma sorted_insertSorted:
  assumes total: "\<And>a b. R a b \<or> R b a"
    and trans: "\<And>a b c. R a b \<Longrightarrow> R b c \<Longrightarrow> R a c"
    and cmp: "\<And>a b. cmp a b \<le> 0 \<longleftrightarrow> R a b"
  shows "sorted_wrt R ys \<Longrightarrow> sorted_wrt R (insertSorted cmp x ys)"
proof (induction ys)
  case Nil
  then show ?case by simp
next
  case (Cons y ys)
  show ?case
  proof (cases "cmp x y \<le> 0")
    case True
    then have "R x y" by (simp add: cmp)
    then have "\<forall>z\<in>set ys. R x z" using Cons.prems trans by auto
    with True \<open>R x y\<close> Cons.prems show ?thesis by simp
  next
    case False
    then have "R y x" using total [of x y] by (simp add: cmp)
    with False Cons show ?thesis by (auto simp: set_insertSorted)
  qed
qed

lemma sorted_arraySort:
  assumes total: "\<And>a b. R a b \<or> R b a"
    and trans: "\<And>a b c. R a b \<Longrightarrow> R b c \<Longrightarrow> R a c"
    and cmp: "\<And>a b. cmp a b \<le> 0 \<longleftrightarrow> R a b"
  shows "sorted_wrt R (arraySort cmp xs)"
proof (induction xs)
  case Nil
  then show ?case by (simp add: arraySort_def)
next
  case (Cons x xs)
  have "arraySort cmp (x # xs) = insertSorted cmp x (arraySort cmp xs)"
    by (simp add: arraySort_def)
  with Cons sorted_insertSorted [of R cmp, OF total trans cmp] show ?case by simp
qed

lemma sorted_wrt_unique:
  assumes anti: "\<And>a b. a \<in> set xs \<Longrightarrow> b \<in> set xs \<Longrightarrow> R a b \<Longrightarrow> R b a \<Longrightarrow> a = b"
  shows "sorted_wrt R xs \<Longrightarrow> sorted_wrt R ys \<Longrightarrow> mset xs = mset ys \<Longrightarrow> xs = ys"
  using anti
proof (induction xs arbitrary: ys)
  case Nil
  then show ?case by simp
next
  case (Cons x xs)
  from Cons.prems(3) obtain y ys' where ys: "ys = y # ys'"
    by (cases ys) auto
  have sets: "set (x # xs) = set (y # ys')"
    using Cons.prems(3) ys by (metis mset_eq_setD)
  have "x = y"
  proof (rule ccontr)
    assume ne: "x \<noteq> y"
    then have "x \<in> set ys'" "y \<in> set xs" using sets by auto
    then have "R y x" "R x y" using Cons.prems(1,2) ys by auto
    moreover have "x \<in> set (x # xs)" "y \<in> set (x # xs)" using \<open>y \<in> set xs\<close> by auto
    ultimately have "x = y" using Cons.prems(4) by blast
    with ne show False by simp
  qed
  moreover have "xs = ys'"
  proof (rule Cons.IH)
    show "sorted_wrt R xs" using Cons.prems(1) by simp
    show "sorted_wrt R ys'" using Cons.prems(2) ys by simp
    show "mset xs = mset ys'" using Cons.prems(3) ys \<open>x = y\<close> by simp
    show "\<And>a b. a \<in> set xs \<Longrightarrow> b \<in> set xs \<Longrightarrow> R a b \<Longrightarrow> R b a \<Longrightarrow> a = b"
      using Cons.prems(4) by simp
  qed
  ultimately show ?case using ys by simp
qed

lemma filter_insertSorted:
  assumes "\<And>a b. P a \<Longrightarrow> P b \<Longrightarrow> cmp a b \<le> 0"
  shows "filter P (insertSorted cmp x ys) = (if P x then x # filter P ys else filter P ys)"
  using assms by (induction ys) auto

lemma filter_arraySort:
  assumes "\<And>a b. P a \<Longrightarrow> P b \<Longrightarrow> cmp a b \<le> 0"
  shows "filter P (arraySort cmp xs) = filter P xs"
proof (induction xs)
  case Nil
  then show ?case by (simp add: arraySort_def)
next
  case (Cons x xs)
  have "arraySort cmp (x # xs) = insertSorted cmp x (arraySort cmp xs)"
    by (simp add: arraySort_def)
  with Cons filter_insertSorted [of P cmp x "arraySort cmp xs", OF assms] show ?case by simp
qed

lemma consistent_zero_sym: "consistentComparison lc \<Longrightarrow> lc a b = 0 \<Longrightarrow> lc b a = 0"
  unfolding consistentComparison_def by (metis less_irrefl linorder_neqE_linordered_idom)

lemma compareFiles_ties:
  assumes "consistentComparison lc" "compareFiles lc a x = 0" "compareFiles lc a y = 0"
  shows "compareFiles lc x y \<le> 0"
proof -
  from assms(2,3) have m: "mtime x = mtime a" "mtime y = mtime a"
    and l: "lc (path a) (path x) = 0" "lc (path a) (path y) = 0"
    by (auto simp: compareFiles_def Let_def split: if_splits)
  from consistent_zero_sym [OF assms(1) l(1)] have "lc (path x) (path a) \<le> 0" by simp
  with l(2) assms(1) have "lc (path x) (path y) \<le> 0"
    unfolding consistentComparison_def by (metis order_refl)
  with m show ?thesis by (simp add: compareFiles_def)
qed

lemma codeUnitCompare_consistent: "consistentComparison codeUnitCompare"
  by (auto simp: consistentComparison_def codeUnitCompare_def)

lemma codeUnitCompare_separates: "codeUnitCompare a b = 0 \<Longrightarrow> a = b"
  by (auto simp: codeUnitCompare_def split: if_splits)

lemma collationCompare_le:
  "collationCompare a b \<le> 0 \<longleftrightarrow>
     map toLowerCase (collationKey a) < map toLowerCase (collationKey b)
     \<or> (map toLowerCase (collationKey a) = map toLowerCase (collationKey b)
         \<and> collationKey b \<le> collationKey a)"
  by (auto simp: collationCompare_def codeUnitCompare_def)

lemma collationCompare_consistent: "consistentComparison collationCompare"
proof -
  have "\<And>a b. collationCompare a b < 0 \<longleftrightarrow> 0 < collationCompare b a"
    by (auto simp: collationCompare_def codeUnitCompare_def)
  moreover have "\<And>a b c. collationCompare a b \<le> 0 \<Longrightarrow> collationCompare b c \<le> 0
      \<Longrightarrow> collationCompare a c \<le> 0"
    unfolding collationCompare_le by (auto intro: order.trans less_trans)
  ultimately show ?thesis
    unfolding consistentComparison_def by blast
qed

lemma arraySort_unique:
  assumes c: "consistentComparison lc" and n: "noTies lc xs" and m: "mset ys = mset xs"
  shows "arraySort (compareFiles lc) ys = arraySort (compareFiles lc) xs"
proof (rule sorted_wrt_unique [where R = "snapshotOrder lc"])
  have total: "\<And>a b. snapshotOrder lc a b \<or> snapshotOrder lc b a"
    using c by (rule snapshotOrder_total)
  have trans: "\<And>a b c. snapshotOrder lc a b \<Longrightarrow> snapshotOrder lc b c \<Longrightarrow> snapshotOrder lc a c"
    using c by (rule snapshotOrder_trans)
  show "sorted_wrt (snapshotOrder lc) (arraySort (compareFiles lc) ys)"
    by (rule sorted_arraySort [OF total trans compareFiles_le])
  show "sorted_wrt (snapshotOrder lc) (arraySort (compareFiles lc) xs)"
    by (rule sorted_arraySort [OF total trans compareFiles_le])
  show "mset (arraySort (compareFiles lc) ys) = mset (arraySort (compareFiles lc) xs)"
    using m by (simp add: mset_arraySort)
next
  fix x y
  assume x: "x \<in> set (arraySort (compareFiles lc) ys)"
    and y: "y \<in> set (arraySort (compareFiles lc) ys)"
    and xy: "snapshotOrder lc x y" and yx: "snapshotOrder lc y x"
  have "set ys = set xs" using m by (rule mset_eq_setD)
  with x y have mem: "x \<in> set xs" "y \<in> set xs" by (simp_all add: set_arraySort)
  from xy yx have t: "mtime x = mtime y"
    and l: "lc (path x) (path y) \<le> 0" "lc (path y) (path x) \<le> 0"
    by (auto simp: snapshotOrder_def)
  have "lc (path x) (path y) < 0 \<longleftrightarrow> 0 < lc (path y) (path x)"
    using c unfolding consistentComparison_def by blast
  with l have "lc (path x) (path y) = 0" by linarith
  with t have "compareFiles lc x y = 0" by (simp add: compareFiles_def)
  with n mem show "x = y" unfolding noTies_def by blast
qed

lemma getRepoRoot_gitStatus: "getRepoRoot (C\<lparr>gitStatus := g\<rparr>) cwd = getRepoRoot C cwd"
  by (simp add: getRepoRoot_def split: sum.splits)

lemma withMtime_gitStatus: "withMtime (C\<lparr>gitStatus := g\<rparr>) root = withMtime C root"
  by (rule ext) (simp add: withMtime_def absPath_def)

lemma getChangedFiles_unique:
  assumes c: "consistentComparison (localeCompare C)"
    and g: "simpleGit C cwd = Inr ()" and st: "gitStatus C = Inr st"
    and n: "noTies (localeCompare C)
              (map (withMtime C (getRepoRoot C cwd)) (fileList (collectFiles st)))"
    and m: "mset (map (withMtime C (getRepoRoot C cwd)) (fileList (collectFiles st')))
            = mset (map (withMtime C (getRepoRoot C cwd)) (fileList (collectFiles st)))"
  shows "getChangedFiles (C\<lparr>gitStatus := Inr st'\<rparr>) cwd = getChangedFiles C cwd"
  using g st arraySort_unique [OF c n m]
  by (simp add: getChangedFiles_cases getRepoRoot_gitStatus withMtime_gitStatus)

lemma entrySignal_firstMatchingRule:
  "entrySignal rn e = map_option (\<lambda>k. (file_path e, k)) (firstMatchingRule rn e)"
  unfolding entrySignal_def processFile_firstMatchingRule
  by (simp add: addFileIfUnique_def emptyCollected_def split: option.splits)

lemma rename_rule_first:
  assumes "\<exists>r\<in>set rn. rename_to r = file_path e \<or> rename_from r = file_path e"
  shows "firstMatchingRule rn e = Some Renamed"
proof -
  from assms have "file_path e \<in> set (map rename_to rn) \<union> set (map rename_from rn)"
    by force
  then show ?thesis
    by (simp add: firstMatchingRule_def specRules_def)
qed

lemma collected_record_from_entry:
  assumes "files st = Some fs" "r \<in> set (fileList (collectFiles st))"
  shows "\<exists>e\<in>set fs. file_path e = path r \<and> firstMatchingRule (renamed st) e = Some (status r)"
proof -
  have "(path r, status r) \<in> set (pairsOf (fileList (collectFiles st)))"
    using assms(2) by (auto simp: pairsOf_def)
  moreover have "distinct (map fst (pairsOf (fileList (collectFiles st))))"
    using collectFiles_ok(1) [of st] by (simp add: pairsOf_def comp_def)
  ultimately have "map_of (pairsOf (fileList (collectFiles st))) (path r) = Some (status r)"
    by simp
  then have "map_of (rawSignals st) (path r) = Some (status r)"
    by (simp add: collectFiles_ok(2))
  then have "(path r, status r) \<in> set (rawSignals st)"
    by (rule map_of_SomeD)
  then obtain e where "e \<in> set fs" "entrySignal (renamed st) e = Some (path r, status r)"
    using assms(1) by (auto simp: rawSignals_def List.map_filter_def)
  then show ?thesis
    by (auto simp: entrySignal_firstMatchingRule)
qed

lemma map_of_cong_set:
  assumes "distinct (map fst xs)" "distinct (map fst ys)" "set xs = set ys"
  shows "map_of xs = map_of ys"
proof
  fix k
  show "map_of xs k = map_of ys k"
  proof (cases "map_of xs k")
    case None
    then have "k \<notin> fst ` set ys" using assms(3) by (simp add: map_of_eq_None_iff)
    then have "map_of ys k = None" by (simp add: map_of_eq_None_iff)
    with None show ?thesis by simp
  next
    case (Some v)
    then have "(k, v) \<in> set ys" using assms(3) by (auto dest: map_of_SomeD)
    then have "map_of ys k = Some v" using assms(2) by simp
    with Some show ?thesis by simp
  qed
qed

lemma snapshot_of_collected:
  assumes "distinct (map path fl)"
  shows "distinct (map path (arraySort cmp (map (withMtime C root) fl)))"
    and "map_of (pairsOf (arraySort cmp (map (withMtime C root) fl))) = map_of (pairsOf fl)"
proof -
  let ?fs = "arraySort cmp (map (withMtime C root) fl)"
  have paths: "map path (map (withMtime C root) fl) = map path fl"
    by (simp add: path_withMtime)
  show d: "distinct (map path ?fs)"
    using assms by (simp only: distinct_paths_arraySort paths)
  have "set (pairsOf ?fs) = set (pairsOf fl)"
    unfolding pairsOf_def by (simp add: set_arraySort path_withMtime image_image)
  moreover have "map fst (pairsOf ?fs) = map path ?fs" "map fst (pairsOf fl) = map path fl"
    by (simp_all add: pairsOf_def comp_def)
  ultimately show "map_of (pairsOf ?fs) = map_of (pairsOf fl)"
    using d assms by (intro map_of_cong_set) simp_all
qed

lemma length_pending_step:
  "length (pending (step e a)) \<le> (if e = Tick then Suc (length (pending a)) else length (pending a))"
  by (cases e) (auto simp: Let_def split: list.splits)

lemma refresh_clamps_index_of_its_render:
  "refreshStarts r skipIfSearching \<Longrightarrow>
   selectedIndex (refresh r skipIfSearching newFiles s) =
     (if renderSelectedIndex r \<ge> int (length newFiles) then max 0 (int (length newFiles) - 1)
      else selectedIndex s)"
  by (simp add: refresh_def refreshPublish_def Let_def)






section \<open>Status Normalizer and getChangedFiles: properties\<close>

text \<open>
  C1. What the normalizer does with a raw entry is decided by the first rule of the
  specification's table that matches it: the entry is added (if its path is new) with the
  status of that rule, and left out when no rule matches. In particular an entry whose path is
  in the rename list resolves to \<open>Renamed\<close> whatever its flags are, and every record
  collected from per-file entries carries the status of the first matching rule of one of the
  entries with its path.
\<close>

theorem status_is_first_matching_rule:
  "processFile rn e acc =
     (case firstMatchingRule rn e of None \<Rightarrow> acc | Some k \<Rightarrow> addFileIfUnique (file_path e) k acc)
   \<and> ((\<exists>r\<in>set rn. rename_to r = file_path e \<or> rename_from r = file_path e)
        \<longrightarrow> firstMatchingRule rn e = Some Renamed)
   \<and> (\<forall>fs. files st = Some fs \<longrightarrow>
         (\<forall>r\<in>set (fileList (collectFiles st)).
            \<exists>e'\<in>set fs. file_path e' = path r
                 \<and> firstMatchingRule (renamed st) e' = Some (status r)))"
  using processFile_firstMatchingRule [of rn e acc] rename_rule_first [of rn e]
    collected_record_from_entry [of st]
  by blast

theorem status_is_first_matching_rule_witness:
  "processFile [\<lparr>rename_from = ''old.ts'', rename_to = ''new.ts''\<rparr>]
      \<lparr>file_path = ''new.ts'', index = ''A'', working_dir = '' ''\<rparr> emptyCollected
   = \<lparr>uniquePaths = {''new.ts''}, fileList = [\<lparr>path = ''new.ts'', status = Renamed, mtime = 0\<rparr>]\<rparr>
   \<and> (\<exists>r\<in>set [\<lparr>rename_from = ''old.ts'', rename_to = ''new.ts''\<rparr>].
         rename_to r = ''new.ts'' \<or> rename_from r = ''new.ts'')
   \<and> firstMatchingRule [\<lparr>rename_from = ''old.ts'', rename_to = ''new.ts''\<rparr>]
        \<lparr>file_path = ''new.ts'', index = ''A'', working_dir = '' ''\<rparr> = Some Renamed
   \<and> fileList (collectFiles
        \<lparr>files = Some [\<lparr>file_path = ''a.ts'', index = ''A'', working_dir = ''D''\<rparr>,
                       \<lparr>file_path = ''b.ts'', index = ''A'', working_dir = ''M''\<rparr>,
                       \<lparr>file_path = ''c.ts'', index = ''?'', working_dir = ''?''\<rparr>,
                       \<lparr>file_path = ''d.ts'', index = '''', working_dir = ''M''\<rparr>,
                       \<lparr>file_path = ''e.ts'', index = ''R'', working_dir = '' ''\<rparr>],
         modified = [], staged = [], not_added = [], deleted = [], renamed = []\<rparr>)
     = [\<lparr>path = ''a.ts'', status = Deleted, mtime = 0\<rparr>,
        \<lparr>path = ''b.ts'', status = Modified, mtime = 0\<rparr>,
        \<lparr>path = ''c.ts'', status = New, mtime = 0\<rparr>,
        \<lparr>path = ''d.ts'', status = Unstaged, mtime = 0\<rparr>]"
  using status_is_first_matching_rule
    [of "[\<lparr>rename_from = ''old.ts'', rename_to = ''new.ts''\<rparr>]"
        "\<lparr>file_path = ''new.ts'', index = ''A'', working_dir = '' ''\<rparr>" emptyCollected
        "\<lparr>files = Some [\<lparr>file_path = ''a.ts'', index = ''A'', working_dir = ''D''\<rparr>,
                       \<lparr>file_path = ''b.ts'', index = ''A'', working_dir = ''M''\<rparr>,
                       \<lparr>file_path = ''c.ts'', index = ''?'', working_dir = ''?''\<rparr>,
                       \<lparr>file_path = ''d.ts'', index = '''', working_dir = ''M''\<rparr>,
                       \<lparr>file_path = ''e.ts'', index = ''R'', working_dir = '' ''\<rparr>],
         modified = [], staged = [], not_added = [], deleted = [], renamed = []\<rparr>"]
  by (simp add: processFile_def collectFiles_def addFileIfUnique_def emptyCollected_def
      orBlank_def firstMatchingRule_def specRules_def Let_def)

text \<open>
  C2. \<open>getChangedFiles\<close> returns at most one record per path, for the per-file report
  and for the flat lists alike, and the status of the record of a path is the status of the
  first raw entry that resolved for this path (\<open>map_of\<close> reads the first pair with a given
  key); an entry whose path has been seen changes nothing.
\<close>

theorem one_record_per_path_first_wins:
  "(\<exists>fs. getChangedFiles C cwd = Inr fs \<and> distinct (map path fs)
        \<and> (\<forall>st. simpleGit C cwd = Inr () \<and> gitStatus C = Inr st
              \<longrightarrow> map_of (pairsOf fs) = map_of (rawSignals st)))
   \<and> (p \<in> uniquePaths acc \<longrightarrow> addFileIfUnique p k acc = acc)"
proof -
  have "\<exists>fs. getChangedFiles C cwd = Inr fs \<and> distinct (map path fs)
        \<and> (\<forall>st. simpleGit C cwd = Inr () \<and> gitStatus C = Inr st
              \<longrightarrow> map_of (pairsOf fs) = map_of (rawSignals st))"
  proof (cases "simpleGit C cwd")
    case (Inl e)
    then show ?thesis by (simp add: getChangedFiles_cases)
  next
    case (Inr g)
    show ?thesis
    proof (cases "gitStatus C")
      case (Inl e)
      with Inr show ?thesis by (simp add: getChangedFiles_cases)
    next
      case st: (Inr st)
      let ?fs = "arraySort (compareFiles (localeCompare C))
                   (map (withMtime C (getRepoRoot C cwd)) (fileList (collectFiles st)))"
      have "getChangedFiles C cwd = Inr ?fs"
        using Inr st by (simp add: getChangedFiles_cases)
      moreover have "distinct (map path ?fs)" "map_of (pairsOf ?fs) = map_of (rawSignals st)"
        by (simp_all add: snapshot_of_collected collectFiles_ok)
      ultimately show ?thesis using st by simp
    qed
  qed
  moreover have "p \<in> uniquePaths acc \<longrightarrow> addFileIfUnique p k acc = acc"
    by (simp add: addFileIfUnique_def)
  ultimately show ?thesis by simp
qed

theorem one_record_per_path_first_wins_witness:
  "getChangedFiles
     \<lparr>simpleGit = \<lambda>cwd. Inr (),
      gitStatus = Inr \<lparr>files = None, modified = [''a.ts'', ''b.ts''], staged = [''a.ts'', ''c.ts''],
                       not_added = [''c.ts''], deleted = [''b.ts''],
                       renamed = [\<lparr>rename_from = ''c.ts'', rename_to = ''a.ts''\<rparr>]\<rparr>,
      revparseTopLevel = Inr ''/repo'', isAbsolute = \<lambda>p. False,
      pathJoin = \<lambda>a b. a @ ''/'' @ b, fsStat = \<lambda>p. Inl FsError,
      localeCompare = codeUnitCompare, gitRaw = \<lambda>args. Inl GitError\<rparr> ''/repo''
   = Inr [\<lparr>path = ''a.ts'', status = Unstaged, mtime = 0\<rparr>,
          \<lparr>path = ''b.ts'', status = Unstaged, mtime = 0\<rparr>,
          \<lparr>path = ''c.ts'', status = Modified, mtime = 0\<rparr>]
   \<and> ''a.ts'' \<in> uniquePaths \<lparr>uniquePaths = {''a.ts''}, fileList = [\<lparr>path = ''a.ts'', status = Unstaged, mtime = 0\<rparr>]\<rparr>
   \<and> addFileIfUnique ''a.ts'' Renamed
        \<lparr>uniquePaths = {''a.ts''}, fileList = [\<lparr>path = ''a.ts'', status = Unstaged, mtime = 0\<rparr>]\<rparr>
      = \<lparr>uniquePaths = {''a.ts''}, fileList = [\<lparr>path = ''a.ts'', status = Unstaged, mtime = 0\<rparr>]\<rparr>"
  using one_record_per_path_first_wins
    [of "\<lparr>simpleGit = \<lambda>cwd. Inr (),
      gitStatus = Inr \<lparr>files = None, modified = [''a.ts'', ''b.ts''], staged = [''a.ts'', ''c.ts''],
                       not_added = [''c.ts''], deleted = [''b.ts''],
                       renamed = [\<lparr>rename_from = ''c.ts'', rename_to = ''a.ts''\<rparr>]\<rparr>,
      revparseTopLevel = Inr ''/repo'', isAbsolute = \<lambda>p. False,
      pathJoin = \<lambda>a b. a @ ''/'' @ b, fsStat = \<lambda>p. Inl FsError,
      localeCompare = codeUnitCompare, gitRaw = \<lambda>args. Inl GitError\<rparr>" "''/repo''" "''a.ts''"
      "\<lparr>uniquePaths = {''a.ts''}, fileList = [\<lparr>path = ''a.ts'', status = Unstaged, mtime = 0\<rparr>]\<rparr>" Renamed]
  by (simp add: getChangedFiles_def getChangedFilesTry_def collectFiles_def addFileIfUnique_def
      emptyCollected_def addMtime_def absPath_def arraySort_def compareFiles_def
      codeUnitCompare_def less_char_def Let_def)

text \<open>
  C5. The promise of \<open>getChangedFiles\<close> is never rejected, and whenever a step inside its
  \<open>try\<close> block throws (the constructor, the status query) it resolves to the empty list.
\<close>

theorem getChangedFiles_never_throws:
  "(\<exists>fs. getChangedFiles C cwd = Inr fs)
   \<and> (\<forall>e. getChangedFilesTry C cwd = Inl e \<longrightarrow> getChangedFiles C cwd = Inr [])
   \<and> (\<forall>e. simpleGit C cwd = Inl e \<longrightarrow> getChangedFiles C cwd = Inr [])
   \<and> (\<forall>e. gitStatus C = Inl e \<longrightarrow> getChangedFiles C cwd = Inr [])"
  by (auto simp: getChangedFiles_def getChangedFilesTry_def split: sum.splits)

theorem getChangedFiles_never_throws_witness:
  "gitStatus \<lparr>simpleGit = \<lambda>cwd. Inr (), gitStatus = Inl GitError,
      revparseTopLevel = Inl GitError, isAbsolute = \<lambda>p. False,
      pathJoin = \<lambda>a b. a @ ''/'' @ b, fsStat = \<lambda>p. Inl FsError,
      localeCompare = codeUnitCompare, gitRaw = \<lambda>args. Inl GitError\<rparr> = Inl GitError
   \<and> getChangedFiles
     \<lparr>simpleGit = \<lambda>cwd. Inr (), gitStatus = Inl GitError,
      revparseTopLevel = Inl GitError, isAbsolute = \<lambda>p. False,
      pathJoin = \<lambda>a b. a @ ''/'' @ b, fsStat = \<lambda>p. Inl FsError,
      localeCompare = codeUnitCompare, gitRaw = \<lambda>args. Inl GitError\<rparr> ''/not-a-repo'' = Inr []"
  using getChangedFiles_never_throws
    [of "\<lparr>simpleGit = \<lambda>cwd. Inr (), gitStatus = Inl GitError,
      revparseTopLevel = Inl GitError, isAbsolute = \<lambda>p. False,
      pathJoin = \<lambda>a b. a @ ''/'' @ b, fsStat = \<lambda>p. Inl FsError,
      localeCompare = codeUnitCompare, gitRaw = \<lambda>args. Inl GitError\<rparr>" "''/not-a-repo''"]
  by simp

text \<open>
  C6. The enrichment of a batch is never aborted: \<open>Promise.all\<close> over the callbacks
  resolves, to a list with one record per input record, in the same order and with the same
  path and status; the time of each record is the epoch when the stat of its own absolute
  path fails and the time reported by that stat otherwise, so it does not depend on the stat
  of any other record.
\<close>

theorem stat_failure_only_resets_its_record:
  "\<exists>es. promiseAll (map (addMtime C root) fs) = Inr es \<and> length es = length fs
     \<and> (\<forall>i<length fs.
           path (es ! i) = path (fs ! i) \<and> status (es ! i) = status (fs ! i)
           \<and> mtime (es ! i) = (case fsStat C (absPath C root (fs ! i)) of Inl e \<Rightarrow> 0 | Inr t \<Rightarrow> t))"
  by (simp add: promiseAll_addMtime withMtime_def)

theorem stat_failure_only_resets_its_record_witness:
  "promiseAll (map (addMtime
       \<lparr>simpleGit = \<lambda>cwd. Inr (), gitStatus = Inl GitError,
        revparseTopLevel = Inr ''/repo'', isAbsolute = \<lambda>p. False,
        pathJoin = \<lambda>a b. a @ ''/'' @ b,
        fsStat = \<lambda>p. if p = ''/repo/gone.ts'' then Inl FsError else Inr 1700000000000,
        localeCompare = codeUnitCompare, gitRaw = \<lambda>args. Inl GitError\<rparr> ''/repo'')
     [\<lparr>path = ''a.ts'', status = Unstaged, mtime = 0\<rparr>,
      \<lparr>path = ''gone.ts'', status = Deleted, mtime = 0\<rparr>,
      \<lparr>path = ''b.ts'', status = New, mtime = 0\<rparr>])
   = Inr [\<lparr>path = ''a.ts'', status = Unstaged, mtime = 1700000000000\<rparr>,
          \<lparr>path = ''gone.ts'', status = Deleted, mtime = 0\<rparr>,
          \<lparr>path = ''b.ts'', status = New, mtime = 1700000000000\<rparr>]"
  using stat_failure_only_resets_its_record
    [of "\<lparr>simpleGit = \<lambda>cwd. Inr (), gitStatus = Inl GitError,
        revparseTopLevel = Inr ''/repo'', isAbsolute = \<lambda>p. False,
        pathJoin = \<lambda>a b. a @ ''/'' @ b,
        fsStat = \<lambda>p. if p = ''/repo/gone.ts'' then Inl FsError else Inr 1700000000000,
        localeCompare = codeUnitCompare, gitRaw = \<lambda>args. Inl GitError\<rparr>" "''/repo''"
      "[\<lparr>path = ''a.ts'', status = Unstaged, mtime = 0\<rparr>,
      \<lparr>path = ''gone.ts'', status = Deleted, mtime = 0\<rparr>,
      \<lparr>path = ''b.ts'', status = New, mtime = 0\<rparr>]"]
  by (simp add: addMtime_def absPath_def)

text \<open>
  C3. With equal modification times, the order of the paths in the snapshot is the order of
  \<open>localeCompare\<close>, not the lexicographic order of the strings: under a collation that
  ignores case first, \<open>getChangedFiles\<close> returns \<open>a.ts\<close> before \<open>B.ts\<close>, and this
  snapshot is not sorted with respect to comparison by character code. Nor does the same
  multiset of records always give the same order: two different paths that the collation
  takes for equal, with the same modification time, stay in the order of the status report,
  so that two reports with the same two entries in opposite orders give two different
  snapshots.
\<close>

theorem snapshot_not_lexicographic_counterexample:
  "consistentComparison collationCompare
   \<and> getChangedFiles
       \<lparr>simpleGit = \<lambda>cwd. Inr (),
        gitStatus = Inr \<lparr>files = Some [\<lparr>file_path = ''B.ts'', index = '' '', working_dir = ''M''\<rparr>,
                                      \<lparr>file_path = ''a.ts'', index = '' '', working_dir = ''M''\<rparr>],
                         modified = [], staged = [], not_added = [], deleted = [], renamed = []\<rparr>,
        revparseTopLevel = Inr ''/repo'', isAbsolute = \<lambda>p. False,
        pathJoin = \<lambda>a b. a @ ''/'' @ b, fsStat = \<lambda>p. Inr 1700000000000,
        localeCompare = collationCompare, gitRaw = \<lambda>args. Inl GitError\<rparr> ''/repo''
     = Inr [\<lparr>path = ''a.ts'', status = Unstaged, mtime = 1700000000000\<rparr>,
            \<lparr>path = ''B.ts'', status = Unstaged, mtime = 1700000000000\<rparr>]
   \<and> \<not> sorted_wrt (snapshotOrder codeUnitCompare)
          [\<lparr>path = ''a.ts'', status = Unstaged, mtime = 1700000000000\<rparr>,
           \<lparr>path = ''B.ts'', status = Unstaged, mtime = 1700000000000\<rparr>]
   \<and> getChangedFiles
       \<lparr>simpleGit = \<lambda>cwd. Inr (),
        gitStatus = Inr \<lparr>files = Some [\<lparr>file_path = [CHR ''a'', CHR 0x01] @ ''.ts'', index = '' '', working_dir = ''M''\<rparr>,
                                      \<lparr>file_path = ''a.ts'', index = '' '', working_dir = ''M''\<rparr>],
                         modified = [], staged = [], not_added = [], deleted = [], renamed = []\<rparr>,
        revparseTopLevel = Inr ''/repo'', isAbsolute = \<lambda>p. False,
        pathJoin = \<lambda>a b. a @ ''/'' @ b, fsStat = \<lambda>p. Inr 1700000000000,
        localeCompare = collationCompare, gitRaw = \<lambda>args. Inl GitError\<rparr> ''/repo''
     = Inr [\<lparr>path = [CHR ''a'', CHR 0x01] @ ''.ts'', status = Unstaged, mtime = 1700000000000\<rparr>,
            \<lparr>path = ''a.ts'', status = Unstaged, mtime = 1700000000000\<rparr>]
   \<and> getChangedFiles
       \<lparr>simpleGit = \<lambda>cwd. Inr (),
        gitStatus = Inr \<lparr>files = Some [\<lparr>file_path = ''a.ts'', index = '' '', working_dir = ''M''\<rparr>,
                                      \<lparr>file_path = [CHR ''a'', CHR 0x01] @ ''.ts'', index = '' '', working_dir = ''M''\<rparr>],
                         modified = [], staged = [], not_added = [], deleted = [], renamed = []\<rparr>,
        revparseTopLevel = Inr ''/repo'', isAbsolute = \<lambda>p. False,
        pathJoin = \<lambda>a b. a @ ''/'' @ b, fsStat = \<lambda>p. Inr 1700000000000,
        localeCompare = collationCompare, gitRaw = \<lambda>args. Inl GitError\<rparr> ''/repo''
     = Inr [\<lparr>path = ''a.ts'', status = Unstaged, mtime = 1700000000000\<rparr>,
            \<lparr>path = [CHR ''a'', CHR 0x01] @ ''.ts'', status = Unstaged, mtime = 1700000000000\<rparr>]"
proof -
  have "toLowerCase (CHR ''B'') = CHR ''b''" "toLowerCase (CHR ''a'') = CHR ''a''"
    by (simp_all add: toLowerCase_def)
  then have 1: "collationCompare ''B.ts'' ''a.ts'' = 1"
    by (simp add: collationCompare_def collationKey_def ignorableChars_def less_char_def)
  have key: "collationKey ([CHR ''a'', CHR 0x01] @ ''.ts'') = ''a.ts''" "collationKey ''a.ts'' = ''a.ts''"
    by (simp_all add: collationKey_def ignorableChars_def)
  then have 2: "collationCompare ([CHR ''a'', CHR 0x01] @ ''.ts'') ''a.ts'' = 0"
    "collationCompare ''a.ts'' ([CHR ''a'', CHR 0x01] @ ''.ts'') = 0"
    unfolding collationCompare_def by (simp_all add: codeUnitCompare_def)
  from 1 2 show ?thesis
    using collationCompare_consistent
    by (simp add: getChangedFiles_def getChangedFilesTry_def collectFiles_def processFile_def
        orBlank_def addFileIfUnique_def emptyCollected_def addMtime_def absPath_def
        arraySort_def compareFiles_def snapshotOrder_def codeUnitCompare_def less_char_def Let_def)
qed

text \<open>
  C3, as amended. The list that \<open>getChangedFiles\<close> returns is sorted: along it the
  modification time never increases, and of two records with the same time the earlier one has
  the path that \<open>localeCompare\<close> puts first. \<open>localeCompare\<close> is the parameter \<open>lc\<close>, a
  consistent comparison function. The sort permutes its input and keeps records that compare
  equal in their input order (it is stable). Whenever no two different records of the
  enriched list compare equal, every status report that leads to the same multiset of
  enriched records gives the same snapshot; nothing is said of the order of different records
  that compare equal.
\<close>

theorem snapshot_sorted_stable_deterministic:
  assumes "consistentComparison lc"
  shows "sorted_wrt (snapshotOrder lc) (arraySort (compareFiles lc) xs)
     \<and> mset (arraySort (compareFiles lc) xs) = mset xs
     \<and> filter (\<lambda>b. compareFiles lc a b = 0) (arraySort (compareFiles lc) xs)
         = filter (\<lambda>b. compareFiles lc a b = 0) xs
     \<and> (noTies lc xs \<and> mset ys = mset xs
          \<longrightarrow> arraySort (compareFiles lc) ys = arraySort (compareFiles lc) xs)
     \<and> (localeCompare C = lc \<and> getChangedFiles C cwd = Inr fs
          \<longrightarrow> sorted_wrt (snapshotOrder lc) fs)
     \<and> (localeCompare C = lc \<and> simpleGit C cwd = Inr () \<and> gitStatus C = Inr st
         \<and> noTies lc (map (withMtime C (getRepoRoot C cwd)) (fileList (collectFiles st)))
         \<and> mset (map (withMtime C (getRepoRoot C cwd)) (fileList (collectFiles st')))
            = mset (map (withMtime C (getRepoRoot C cwd)) (fileList (collectFiles st)))
          \<longrightarrow> getChangedFiles (C\<lparr>gitStatus := Inr st'\<rparr>) cwd = getChangedFiles C cwd)"
proof -
  have total: "\<And>a b. snapshotOrder lc a b \<or> snapshotOrder lc b a"
    using assms by (rule snapshotOrder_total)
  have trans: "\<And>a b c. snapshotOrder lc a b \<Longrightarrow> snapshotOrder lc b c \<Longrightarrow> snapshotOrder lc a c"
    using assms by (rule snapshotOrder_trans)
  have sorted: "\<And>zs. sorted_wrt (snapshotOrder lc) (arraySort (compareFiles lc) zs)"
    by (rule sorted_arraySort [OF total trans compareFiles_le])
  have stable: "filter (\<lambda>b. compareFiles lc a b = 0) (arraySort (compareFiles lc) xs)
         = filter (\<lambda>b. compareFiles lc a b = 0) xs"
    by (rule filter_arraySort) (rule compareFiles_ties [OF assms])
  have det: "arraySort (compareFiles lc) ys = arraySort (compareFiles lc) xs"
    if "noTies lc xs" "mset ys = mset xs"
    using assms that by (rule arraySort_unique)
  have link: "sorted_wrt (snapshotOrder lc) fs"
    if "localeCompare C = lc" "getChangedFiles C cwd = Inr fs"
    using that sorted [of "[]"] sorted
    by (auto simp: getChangedFiles_cases arraySort_def split: sum.splits)
  have same: "getChangedFiles (C\<lparr>gitStatus := Inr st'\<rparr>) cwd = getChangedFiles C cwd"
    if "localeCompare C = lc" "simpleGit C cwd = Inr ()" "gitStatus C = Inr st"
      "noTies lc (map (withMtime C (getRepoRoot C cwd)) (fileList (collectFiles st)))"
      "mset (map (withMtime C (getRepoRoot C cwd)) (fileList (collectFiles st')))
       = mset (map (withMtime C (getRepoRoot C cwd)) (fileList (collectFiles st)))"
    using assms that by (intro getChangedFiles_unique) simp_all
  from sorted stable det link same show ?thesis
    by (simp add: mset_arraySort)
qed

theorem snapshot_sorted_stable_deterministic_witness:
  "consistentComparison codeUnitCompare
   \<and> getChangedFiles
       \<lparr>simpleGit = \<lambda>cwd. Inr (),
        gitStatus = Inr \<lparr>files = None, modified = [''b.ts'', ''c.ts'', ''a.ts''], staged = [],
                         not_added = [], deleted = [], renamed = []\<rparr>,
        revparseTopLevel = Inr ''/repo'', isAbsolute = \<lambda>p. False,
        pathJoin = \<lambda>a b. a @ ''/'' @ b,
        fsStat = \<lambda>p. if p = ''/repo/c.ts'' then Inr 7 else Inr 5,
        localeCompare = codeUnitCompare, gitRaw = \<lambda>args. Inl GitError\<rparr> ''/repo''
     = Inr [\<lparr>path = ''c.ts'', status = Unstaged, mtime = 7\<rparr>,
            \<lparr>path = ''a.ts'', status = Unstaged, mtime = 5\<rparr>,
            \<lparr>path = ''b.ts'', status = Unstaged, mtime = 5\<rparr>]
   \<and> getChangedFiles
       \<lparr>simpleGit = \<lambda>cwd. Inr (),
        gitStatus = Inr \<lparr>files = None, modified = [''a.ts'', ''b.ts'', ''c.ts''], staged = [],
                         not_added = [], deleted = [], renamed = []\<rparr>,
        revparseTopLevel = Inr ''/repo'', isAbsolute = \<lambda>p. False,
        pathJoin = \<lambda>a b. a @ ''/'' @ b,
        fsStat = \<lambda>p. if p = ''/repo/c.ts'' then Inr 7 else Inr 5,
        localeCompare = codeUnitCompare, gitRaw = \<lambda>args. Inl GitError\<rparr> ''/repo''
     = Inr [\<lparr>path = ''c.ts'', status = Unstaged, mtime = 7\<rparr>,
            \<lparr>path = ''a.ts'', status = Unstaged, mtime = 5\<rparr>,
            \<lparr>path = ''b.ts'', status = Unstaged, mtime = 5\<rparr>]
   \<and> sorted_wrt (snapshotOrder codeUnitCompare)
        [\<lparr>path = ''c.ts'', status = Unstaged, mtime = 7\<rparr>,
         \<lparr>path = ''a.ts'', status = Unstaged, mtime = 5\<rparr>,
         \<lparr>path = ''b.ts'', status = Unstaged, mtime = 5\<rparr>]"
proof -
  let ?st = "\<lparr>files = None, modified = [''b.ts'', ''c.ts'', ''a.ts''], staged = [],
              not_added = [], deleted = [], renamed = []\<rparr>"
  let ?st' = "\<lparr>files = None, modified = [''a.ts'', ''b.ts'', ''c.ts''], staged = [],
               not_added = [], deleted = [], renamed = []\<rparr>"
  let ?C = "\<lparr>simpleGit = \<lambda>cwd. Inr (), gitStatus = Inr ?st,
        revparseTopLevel = Inr ''/repo'', isAbsolute = \<lambda>p. False,
        pathJoin = \<lambda>a b. a @ ''/'' @ b,
        fsStat = \<lambda>p. if p = ''/repo/c.ts'' then Inr 7 else Inr 5,
        localeCompare = codeUnitCompare, gitRaw = \<lambda>args. Inl GitError\<rparr>"
  let ?out = "[\<lparr>path = ''c.ts'', status = Unstaged, mtime = 7\<rparr>,
               \<lparr>path = ''a.ts'', status = Unstaged, mtime = 5\<rparr>,
               \<lparr>path = ''b.ts'', status = Unstaged, mtime = 5\<rparr>]"
  have c: "consistentComparison codeUnitCompare"
    by (rule codeUnitCompare_consistent)
  have "trim ''/repo'' = ''/repo''"
    by (simp add: trim_def isWhitespace_def)
  then have root: "getRepoRoot ?C ''/repo'' = ''/repo''"
    by (simp add: getRepoRoot_def)
  have e: "map (withMtime ?C ''/repo'') (fileList (collectFiles ?st))
           = [\<lparr>path = ''b.ts'', status = Unstaged, mtime = 5\<rparr>,
              \<lparr>path = ''c.ts'', status = Unstaged, mtime = 7\<rparr>,
              \<lparr>path = ''a.ts'', status = Unstaged, mtime = 5\<rparr>]"
    by (simp add: collectFiles_def addFileIfUnique_def emptyCollected_def withMtime_def
        absPath_def Let_def)
  have e': "map (withMtime ?C ''/repo'') (fileList (collectFiles ?st'))
           = [\<lparr>path = ''a.ts'', status = Unstaged, mtime = 5\<rparr>,
              \<lparr>path = ''b.ts'', status = Unstaged, mtime = 5\<rparr>,
              \<lparr>path = ''c.ts'', status = Unstaged, mtime = 7\<rparr>]"
    by (simp add: collectFiles_def addFileIfUnique_def emptyCollected_def withMtime_def
        absPath_def Let_def)
  have n: "noTies codeUnitCompare (map (withMtime ?C (getRepoRoot ?C ''/repo'')) (fileList (collectFiles ?st)))"
    unfolding root e by (simp add: noTies_def compareFiles_def codeUnitCompare_def)
  have m: "mset (map (withMtime ?C (getRepoRoot ?C ''/repo'')) (fileList (collectFiles ?st')))
           = mset (map (withMtime ?C (getRepoRoot ?C ''/repo'')) (fileList (collectFiles ?st)))"
    unfolding root e e' by simp
  have s: "getChangedFiles ?C ''/repo'' = Inr ?out"
    using root
    by (simp add: getChangedFiles_def getChangedFilesTry_def collectFiles_def addFileIfUnique_def
        emptyCollected_def addMtime_def absPath_def arraySort_def compareFiles_def
        codeUnitCompare_def less_char_def Let_def)
  note T = snapshot_sorted_stable_deterministic [OF c, of _ _ _ ?C "''/repo''" ?out ?st ?st']
  from T n m have same: "getChangedFiles (?C\<lparr>gitStatus := Inr ?st'\<rparr>) ''/repo'' = getChangedFiles ?C ''/repo''"
    by simp
  from T s have "sorted_wrt (snapshotOrder codeUnitCompare) ?out"
    by simp
  with c s same show ?thesis
    by simp
qed

section \<open>Content Search Filter: properties\<close>



section \<open>Polling Scheduler and refresh: properties\<close>

text \<open>
  C4. Passes can overlap: the timer starts a pass at every tick that is not skipped, without
  looking at the passes still pending. After two ticks with no pass resolved in between, two
  passes are pending.
\<close>

theorem passes_overlap_counterexample:
  "\<not> neverOverlap (mounted []) [Tick, Tick]"
  by (simp add: mounted_def refreshStarts_def)

text \<open>
  C4, as amended. Passes do not overlap along a run in which every tick finds the previous
  pass resolved, that is, as long as no pass outlasts the polling interval.
\<close>

theorem no_overlap_when_ticks_find_no_pending_pass:
  "length (pending a) \<le> 1 \<Longrightarrow> ticksFindNoPendingPass a es \<Longrightarrow> neverOverlap a es"
proof (induction es arbitrary: a)
  case Nil
  then show ?case by simp
next
  case (Cons e es)
  have "length (pending (step e a)) \<le> 1"
  proof (cases "e = Tick")
    case True
    with Cons.prems(2) have "pending a = []" by simp
    with True show ?thesis by simp
  next
    case False
    with length_pending_step [of e a] Cons.prems(1) show ?thesis by simp
  qed
  with Cons show ?case by simp
qed

theorem no_overlap_when_ticks_find_no_pending_pass_witness:
  "length (pending (mounted [])) \<le> 1
   \<and> ticksFindNoPendingPass (mounted []) [Tick, Settle [], Tick, Settle []]
   \<and> neverOverlap (mounted []) [Tick, Settle [], Tick, Settle []]"
proof -
  have 1: "length (pending (mounted [])) \<le> 1"
    by (simp add: mounted_def)
  have 2: "ticksFindNoPendingPass (mounted []) [Tick, Settle [], Tick, Settle []]"
    by (simp add: mounted_def refreshStarts_def)
  from 1 2 no_overlap_when_ticks_find_no_pending_pass [OF 1 2] show ?thesis by simp
qed

text \<open>
  C7. The clamp of \<open>refresh\<close> compares the \<open>selectedIndex\<close> of the render that created
  the closure, not the selection at the time of the replacement. The interval callback keeps
  the closure of the render in which the polling effect last ran, where \<open>selectedIndex\<close> is
  0: with six files shown and the last one selected, a poll that finds three files leaves the
  selection at index 5, beyond the end of the new snapshot.
\<close>

theorem polling_refresh_misses_clamp:
  "state (run [Select 5, Tick,
                Settle [\<lparr>path = ''a.ts'', status = Unstaged, mtime = 3\<rparr>,
                        \<lparr>path = ''b.ts'', status = Unstaged, mtime = 2\<rparr>,
                        \<lparr>path = ''c.ts'', status = Unstaged, mtime = 1\<rparr>]]
         (mounted [\<lparr>path = ''a.ts'', status = Unstaged, mtime = 3\<rparr>,
                   \<lparr>path = ''b.ts'', status = Unstaged, mtime = 2\<rparr>,
                   \<lparr>path = ''c.ts'', status = Unstaged, mtime = 1\<rparr>,
                   \<lparr>path = ''d.ts'', status = New, mtime = 0\<rparr>,
                   \<lparr>path = ''e.ts'', status = New, mtime = 0\<rparr>,
                   \<lparr>path = ''f.ts'', status = New, mtime = 0\<rparr>]))
   = \<lparr>allFiles = [\<lparr>path = ''a.ts'', status = Unstaged, mtime = 3\<rparr>,
                   \<lparr>path = ''b.ts'', status = Unstaged, mtime = 2\<rparr>,
                   \<lparr>path = ''c.ts'', status = Unstaged, mtime = 1\<rparr>],
      selectedIndex = 5, searchActive = False\<rparr>"
  by (simp add: run_def mounted_def refresh_def refreshStarts_def refreshPublish_def)

section \<open>Commit History Reader: properties\<close>

text \<open>
  C10. \<open>getCommitHistory\<close> treats a falsy limit as unbounded. With \<open>limit = 0\<close>, as with
  the limit omitted, the log provider is called without \<open>maxCount\<close> and its whole answer is
  returned, one record per commit. With a nonzero limit \<open>n\<close> the provider is called with
  \<open>maxCount = n\<close> and what is returned is its answer to that call: when the provider
  honours \<open>maxCount\<close>, at most \<open>n\<close> commits. A provider that fails gives the empty list.
\<close>

theorem getCommitHistory_zero_limit_unbounded:
  "logOptions (Some 0) = None
   \<and> logOptions None = None
   \<and> getCommitHistory gitLog (Some 0) = getCommitHistory gitLog None
   \<and> (\<forall>n. n \<noteq> 0 \<longrightarrow> logOptions (Some n) = Some n)
   \<and> (\<forall>all. gitLog None = Inr all \<longrightarrow>
         getCommitHistory gitLog (Some 0)
           = map (\<lambda>commit. \<lparr>hash = take 7 (entry_hash commit), message = entry_message commit,
                              author = author_name commit, date = entry_date commit\<rparr>) all
         \<and> length (getCommitHistory gitLog (Some 0)) = length all)
   \<and> (\<forall>n all. n \<noteq> 0 \<and> gitLog (Some n) = Inr all \<longrightarrow>
         getCommitHistory gitLog (Some n)
           = map (\<lambda>commit. \<lparr>hash = take 7 (entry_hash commit), message = entry_message commit,
                              author = author_name commit, date = entry_date commit\<rparr>) all)
   \<and> (\<forall>n all. n \<noteq> 0 \<and> gitLog (Some n) = Inr all \<and> int (length all) \<le> n \<longrightarrow>
         int (length (getCommitHistory gitLog (Some n))) \<le> n)
   \<and> (\<forall>n e. n \<noteq> 0 \<and> gitLog (Some n) = Inl e \<longrightarrow> getCommitHistory gitLog (Some n) = [])
   \<and> (\<forall>e. gitLog None = Inl e \<longrightarrow> getCommitHistory gitLog (Some 0) = [])"
  by (simp add: logOptions_def getCommitHistory_def)

theorem getCommitHistory_zero_limit_unbounded_witness:
  "getCommitHistory
      (\<lambda>opts. Inr (case opts of
                None \<Rightarrow> [\<lparr>entry_hash = ''abcdef1234567890'', entry_message = ''one'',
                            author_name = ''a'', entry_date = ''d1''\<rparr>,
                          \<lparr>entry_hash = ''0123456789abcdef'', entry_message = ''two'',
                            author_name = ''b'', entry_date = ''d2''\<rparr>]
              | Some n \<Rightarrow> take (nat n)
                         [\<lparr>entry_hash = ''abcdef1234567890'', entry_message = ''one'',
                            author_name = ''a'', entry_date = ''d1''\<rparr>,
                          \<lparr>entry_hash = ''0123456789abcdef'', entry_message = ''two'',
                            author_name = ''b'', entry_date = ''d2''\<rparr>])) (Some 0)
   = [\<lparr>hash = ''abcdef1'', message = ''one'', author = ''a'', date = ''d1''\<rparr>,
      \<lparr>hash = ''0123456'', message = ''two'', author = ''b'', date = ''d2''\<rparr>]
   \<and> (1::int) \<noteq> 0
   \<and> getCommitHistory
      (\<lambda>opts. Inr (case opts of
                None \<Rightarrow> [\<lparr>entry_hash = ''abcdef1234567890'', entry_message = ''one'',
                            author_name = ''a'', entry_date = ''d1''\<rparr>,
                          \<lparr>entry_hash = ''0123456789abcdef'', entry_message = ''two'',
                            author_name = ''b'', entry_date = ''d2''\<rparr>]
              | Some n \<Rightarrow> take (nat n)
                         [\<lparr>entry_hash = ''abcdef1234567890'', entry_message = ''one'',
                            author_name = ''a'', entry_date = ''d1''\<rparr>,
                          \<lparr>entry_hash = ''0123456789abcdef'', entry_message = ''two'',
                            author_name = ''b'', entry_date = ''d2''\<rparr>])) (Some 1)
   = [\<lparr>hash = ''abcdef1'', message = ''one'', author = ''a'', date = ''d1''\<rparr>]"
  using getCommitHistory_zero_limit_unbounded
    [of "\<lambda>opts. Inr (case opts of
                None \<Rightarrow> [\<lparr>entry_hash = ''abcdef1234567890'', entry_message = ''one'',
                            author_name = ''a'', entry_date = ''d1''\<rparr>,
                          \<lparr>entry_hash = ''0123456789abcdef'', entry_message = ''two'',
                            author_name = ''b'', entry_date = ''d2''\<rparr>]
              | Some n \<Rightarrow> take (nat n)
                         [\<lparr>entry_hash = ''abcdef1234567890'', entry_message = ''one'',
                            author_name = ''a'', entry_date = ''d1''\<rparr>,
                          \<lparr>entry_hash = ''0123456789abcdef'', entry_message = ''two'',
                            author_name = ''b'', entry_date = ''d2''\<rparr>])"]
  by (simp add: getCommitHistory_def logOptions_def)

text \<open>
  C9. A path that contains a run of two spaces does not survive \<open>getFilesInCommit\<close>: the line
  is split at every run of whitespace and the pieces after the status token are joined with
  single spaces, so the record holds a different path.
\<close>

theorem getFilesInCommit_collapses_whitespace:
  "getFilesInCommit (\<lambda>h. Inr (''M'' @ [CHR 0x09] @ ''my  file.txt'')) ''abc1234''
   = [\<lparr>filePath = ''my file.txt'', statusCode = ''M''\<rparr>]"
  by (simp add: getFilesInCommit_def parseNameStatusLine_def trim_def isWhitespace_def)

end
